theory Spec2Isabelle
  imports Main "HOL-Library.Sublist"
begin

section \<open>Python values and library functions used by the booking tools\<close>

text \<open>
  Strings are Python \<open>str\<close> values whose code points lie below 256, one \<open>char\<close> per code
  point. An attribute or dictionary entry that may be \<open>None\<close> is a \<open>string option\<close>.
  The exceptions the modelled code can raise are the \<open>ValueError\<close> of
  \<open>datetime.strptime\<close>, the \<open>AttributeError\<close> of an attribute access on \<open>None\<close> and the
  \<open>UnboundLocalError\<close> of reading a local variable that no branch assigned.
\<close>

datatype py_error = ValueError | AttributeError | UnboundLocalError

definition truthy :: "string option \<Rightarrow> bool" where
  \<comment> \<open>Python truth value of a \<open>str\<close> or \<open>None\<close>: false for \<open>None\<close> and for the empty string.\<close>
  "truthy v = (case v of None \<Rightarrow> False | Some s \<Rightarrow> s \<noteq> [])"

definition digit_val :: "char \<Rightarrow> nat option" where
  "digit_val c =
     (if (48::nat) \<le> of_char c \<and> of_char c \<le> (57::nat) then Some (of_char c - 48) else None)"

definition digit_char :: "nat \<Rightarrow> char" where
  "digit_char k = ''0123456789'' ! (k mod 10)"

definition two_digits :: "nat \<Rightarrow> string" where
  \<comment> \<open>a number below 100 as two decimal digits, as \<open>%H\<close>, \<open>%M\<close> print it\<close>
  "two_digits n = [digit_char (n div 10), digit_char n]"

subsection \<open>\<open>datetime.strptime(s, "%H:%M")\<close> and \<open>strftime("%H:%M")\<close>\<close>

text \<open>
  CPython matches the format \<open>%H:%M\<close> with the regular expression
  \<open>(2[0-3]|[0-1]\d|\d):([0-5]\d|\d)\<close> and raises \<open>ValueError\<close> when the string does not
  match or text remains after the match. The date of the result is 1900-01-01, so a
  parsed time is kept as the number of minutes since 1900-01-01 00:00; adding a
  \<open>timedelta\<close> of minutes is addition, comparison of two such values is \<open><\<close>.
\<close>

definition parse_hour :: "string \<Rightarrow> nat option" where
  "parse_hour hs =
     (case map digit_val hs of
        [Some a] \<Rightarrow> Some a
      | [Some a, Some b] \<Rightarrow> if 10 * a + b < 24 then Some (10 * a + b) else None
      | _ \<Rightarrow> None)"

definition parse_minute :: "string \<Rightarrow> nat option" where
  "parse_minute ms =
     (case map digit_val ms of
        [Some a] \<Rightarrow> Some a
      | [Some a, Some b] \<Rightarrow> if a < 6 then Some (10 * a + b) else None
      | _ \<Rightarrow> None)"

definition strptime_hm :: "string \<Rightarrow> nat option" where
  "strptime_hm s =
     (let hs = takeWhile (\<lambda>c. c \<noteq> CHR '':'') s;
          rest = dropWhile (\<lambda>c. c \<noteq> CHR '':'') s
      in case rest of
           [] \<Rightarrow> None
         | _ # ms \<Rightarrow>
             (case parse_hour hs of
                None \<Rightarrow> None
              | Some h \<Rightarrow>
                  (case parse_minute ms of
                     None \<Rightarrow> None
                   | Some m \<Rightarrow> Some (60 * h + m))))"

definition strftime_hm :: "nat \<Rightarrow> string" where
  "strftime_hm t = two_digits (t div 60 mod 24) @ '':'' @ two_digits (t mod 60)"

definition well_formed_hhmm :: "string \<Rightarrow> bool" where
  \<comment> \<open>two digits, a colon, two digits, the hour below 24 and the minute below 60\<close>
  "well_formed_hhmm s =
     (case s of
        [a, b, c, d, e] \<Rightarrow>
          (case (digit_val a, digit_val b, digit_val d, digit_val e) of
             (Some h1, Some h2, Some m1, Some m2) \<Rightarrow>
               c = CHR '':'' \<and> 10 * h1 + h2 < 24 \<and> 10 * m1 + m2 < 60
           | _ \<Rightarrow> False)
      | _ \<Rightarrow> False)"

subsection \<open>\<open>datetime.strptime(s, "%Y-%m-%d")\<close> and \<open>strftime("%A")\<close>\<close>

text \<open>
  CPython matches \<open>%Y-%m-%d\<close> with
  \<open>(\d\d\d\d)-(1[0-2]|0[1-9]|[1-9])-(3[0-1]|[1-2]\d|0[1-9]|[1-9]| [1-9])\<close> and then builds
  the date, which raises \<open>ValueError\<close> for year 0 and for a day beyond the month's
  length. The weekday is \<open>(toordinal() + 6) % 7\<close> with Monday as 0, where the ordinal is
  computed as in \<open>datetime._ymd2ord\<close>; \<open>%A\<close> prints the English day name.
\<close>

definition parse_year :: "string \<Rightarrow> nat option" where
  "parse_year ys =
     (case map digit_val ys of
        [Some a, Some b, Some c, Some d] \<Rightarrow> Some (1000 * a + 100 * b + 10 * c + d)
      | _ \<Rightarrow> None)"

definition parse_month :: "string \<Rightarrow> nat option" where
  "parse_month ms =
     (case map digit_val ms of
        [Some a] \<Rightarrow> if 1 \<le> a then Some a else None
      | [Some a, Some b] \<Rightarrow>
          if 1 \<le> 10 * a + b \<and> 10 * a + b \<le> 12 then Some (10 * a + b) else None
      | _ \<Rightarrow> None)"

definition parse_day :: "string \<Rightarrow> nat option" where
  "parse_day ds =
     (case ds of
        [c] \<Rightarrow>
          (case digit_val c of
             Some a \<Rightarrow> if 1 \<le> a then Some a else None
           | None \<Rightarrow> None)
      | [c1, c2] \<Rightarrow>
          if c1 = CHR '' ''
          then (case digit_val c2 of
                  Some b \<Rightarrow> if 1 \<le> b then Some b else None
                | None \<Rightarrow> None)
          else (case (digit_val c1, digit_val c2) of
                  (Some a, Some b) \<Rightarrow>
                    if 1 \<le> 10 * a + b \<and> 10 * a + b \<le> 31 then Some (10 * a + b) else None
                | _ \<Rightarrow> None)
      | _ \<Rightarrow> None)"

definition is_leap :: "nat \<Rightarrow> bool" where
  "is_leap y = (y mod 4 = 0 \<and> (y mod 100 \<noteq> 0 \<or> y mod 400 = 0))"

definition DAYS_IN_MONTH :: "nat list" where
  "DAYS_IN_MONTH = [31, 28, 31, 30, 31, 30, 31, 31, 30, 31, 30, 31]"

definition days_in_month :: "nat \<Rightarrow> nat \<Rightarrow> nat" where
  "days_in_month y m = (if m = 2 \<and> is_leap y then 29 else DAYS_IN_MONTH ! (m - 1))"

definition days_before_month :: "nat \<Rightarrow> nat \<Rightarrow> nat" where
  "days_before_month y m =
     sum_list (take (m - 1) DAYS_IN_MONTH) + (if 2 < m \<and> is_leap y then 1 else 0)"

definition days_before_year :: "nat \<Rightarrow> nat" where
  "days_before_year y = (y - 1) * 365 + (y - 1) div 4 - (y - 1) div 100 + (y - 1) div 400"

definition ymd2ord :: "nat \<Rightarrow> nat \<Rightarrow> nat \<Rightarrow> nat" where
  "ymd2ord y m d = days_before_year y + days_before_month y m + d"

definition strptime_ymd :: "string \<Rightarrow> (nat \<times> nat \<times> nat) option" where
  "strptime_ymd s =
     (case drop 4 s of
        [] \<Rightarrow> None
      | sep # rest \<Rightarrow>
          if sep \<noteq> CHR ''-'' then None
          else
            (case dropWhile (\<lambda>c. c \<noteq> CHR ''-'') rest of
               [] \<Rightarrow> None
             | _ # ds \<Rightarrow>
                 (case (parse_year (take 4 s),
                        parse_month (takeWhile (\<lambda>c. c \<noteq> CHR ''-'') rest),
                        parse_day ds) of
                    (Some y, Some m, Some d) \<Rightarrow>
                      if 1 \<le> y \<and> d \<le> days_in_month y m then Some (y, m, d) else None
                  | _ \<Rightarrow> None)))"

definition day_names :: "string list" where
  "day_names =
     [''Monday'', ''Tuesday'', ''Wednesday'', ''Thursday'', ''Friday'', ''Saturday'', ''Sunday'']"

definition strftime_A :: "nat \<times> nat \<times> nat \<Rightarrow> string" where
  "strftime_A date = (case date of (y, m, d) \<Rightarrow> day_names ! ((ymd2ord y m d + 6) mod 7))"

section \<open>The store: doctors and bookings (models.py)\<close>

text \<open>
  A \<open>Doctor\<close> row has string columns and an optional off-day. A \<open>Booking\<close> row is written
  by \<open>create_booking\<close> from values the conversation handler takes from its session
  state, which are \<open>None\<close> until set, so its columns are optional strings. A query
  filter \<open>column == value\<close> is equality of optional strings (SQLAlchemy renders a
  comparison with \<open>None\<close> as \<open>IS NULL\<close>); \<open>.first()\<close> is the first matching row in
  table order and \<open>.all()\<close> all matching rows in table order.
\<close>

record doctor =
  doctor_id :: nat
  doctor_name :: string
  department :: string
  available_start :: string
  available_end :: string
  off_day :: "string option"

record booking =
  booking_id :: nat
  patient_name :: "string option"
  booking_doctor_name :: "string option"
  date :: "string option"
  time_slot :: "string option"

record database =
  doctors :: "doctor list"
  bookings :: "booking list"

section \<open>Slot calculator: \<open>generate_time_slots\<close> (tools.py)\<close>

function slots_loop :: "nat \<Rightarrow> nat \<Rightarrow> string list \<Rightarrow> string list" where
  \<comment> \<open>the \<open>while current < end\<close> loop: append the current time, advance 20 minutes\<close>
  "slots_loop current end_dt slots =
     (if current < end_dt
      then slots_loop (current + 20) end_dt (slots @ [strftime_hm current])
      else slots)"
  by pat_completeness auto
termination
  by (relation "measure (\<lambda>(current, end_dt, slots). end_dt - current)") auto

declare slots_loop.simps [simp del]

definition generate_time_slots :: "string \<Rightarrow> string \<Rightarrow> py_error + string list" where
  "generate_time_slots start_time end_time =
     (case strptime_hm start_time of
        None \<Rightarrow> Inl ValueError
      | Some start \<Rightarrow>
          (case strptime_hm end_time of
             None \<Rightarrow> Inl ValueError
           | Some end_dt \<Rightarrow> Inr (slots_loop start end_dt [])))"

definition grid_times :: "nat \<Rightarrow> nat \<Rightarrow> nat list" where
  \<comment> \<open>the times \<open>a, a + 20, a + 40, ...\<close> that lie strictly before \<open>b\<close>\<close>
  "grid_times a b = map (\<lambda>i. a + 20 * i) [0..<(b - a + 19) div 20]"

section \<open>Availability resolver and booking ledger (tools.py)\<close>

definition get_doctor_available_slots ::
    "database \<Rightarrow> string option \<Rightarrow> string option \<Rightarrow> py_error + string list" where
  "get_doctor_available_slots db name dt =
     (case find (\<lambda>d. Some (doctor_name d) = name) (doctors db) of
        None \<Rightarrow> Inr []
      | Some doc \<Rightarrow>
          (case generate_time_slots (available_start doc) (available_end doc) of
             Inl e \<Rightarrow> Inl e
           | Inr all_slots \<Rightarrow>
               (let booked = filter (\<lambda>b. booking_doctor_name b = name \<and> date b = dt)
                               (bookings db);
                    booked_slots = map time_slot booked
                in Inr (filter (\<lambda>s. Some s \<notin> set booked_slots) all_slots))))"

definition slot_taken ::
    "database \<Rightarrow> string option \<Rightarrow> string option \<Rightarrow> string option \<Rightarrow> bool" where
  \<comment> \<open>the existence query of \<open>create_booking\<close>: is there a row with this doctor, date and slot\<close>
  "slot_taken db name dt slot =
     (find (\<lambda>b. booking_doctor_name b = name \<and> date b = dt \<and> time_slot b = slot)
        (bookings db) \<noteq> None)"

definition next_booking_id :: "booking list \<Rightarrow> nat" where
  \<comment> \<open>the integer primary key the store assigns: one more than the largest in the table\<close>
  "next_booking_id bs = Suc (fold max (map booking_id bs) 0)"

definition insert_booking ::
    "database \<Rightarrow> string option \<Rightarrow> string option \<Rightarrow> string option \<Rightarrow> string option
       \<Rightarrow> booking \<times> database" where
  \<comment> \<open>\<open>db.add(booking); db.commit(); db.refresh(booking)\<close>\<close>
  "insert_booking db patient name dt slot =
     (let new_booking = \<lparr>booking_id = next_booking_id (bookings db), patient_name = patient,
                          booking_doctor_name = name, date = dt, time_slot = slot\<rparr>
      in (new_booking, db\<lparr>bookings := bookings db @ [new_booking]\<rparr>))"

definition create_booking ::
    "database \<Rightarrow> string option \<Rightarrow> string option \<Rightarrow> string option \<Rightarrow> string option
       \<Rightarrow> booking option \<times> database" where
  "create_booking db patient name dt slot =
     (if slot_taken db name dt slot then (None, db)
      else (case insert_booking db patient name dt slot of
              (new_booking, db') \<Rightarrow> (Some new_booking, db')))"

definition time_distance :: "nat \<Rightarrow> nat \<Rightarrow> int" where
  \<comment> \<open>\<open>abs((x - preferred_dt).total_seconds())\<close> for two times given in minutes\<close>
  "time_distance p x = \<bar>int x - int p\<bar> * 60"

definition suggest_alternative_slots ::
    "database \<Rightarrow> string option \<Rightarrow> string option \<Rightarrow> string \<Rightarrow> py_error + string list" where
  "suggest_alternative_slots db name dt preferred_time =
     (case get_doctor_available_slots db name dt of
        Inl e \<Rightarrow> Inl e
      | Inr available_slots \<Rightarrow>
          if available_slots = [] then Inr []
          else if preferred_time \<in> set available_slots then Inr [preferred_time]
          else
            (case strptime_hm preferred_time of
               None \<Rightarrow> Inl ValueError
             | Some preferred_dt \<Rightarrow>
                 (case those (map strptime_hm available_slots) of
                    None \<Rightarrow> Inl ValueError
                  | Some available_dts \<Rightarrow>
                      Inr (map strftime_hm
                             (take 3 (sort_key (time_distance preferred_dt) available_dts))))))"

definition check_doctor_availability ::
    "database \<Rightarrow> string option \<Rightarrow> string \<Rightarrow> py_error + bool" where
  "check_doctor_availability db name dt =
     (case find (\<lambda>d. Some (doctor_name d) = name) (doctors db) of
        None \<Rightarrow> Inr False
      | Some doc \<Rightarrow>
          (case strptime_ymd dt of
             None \<Rightarrow> Inl ValueError
           | Some date_obj \<Rightarrow>
               if truthy (off_day doc) \<and> Some (strftime_A date_obj) = off_day doc
               then Inr False
               else Inr True))"

section \<open>Overlapping calls of \<open>create_booking\<close>\<close>

text \<open>
  \<open>create_booking\<close> talks to the store twice: the existence query (tools.py 77-81) and,
  when no row was found, the insert with its commit (88-97). It holds no lock and the
  \<open>bookings\<close> table declares no uniqueness constraint (models.py 18-24), so between the
  two another call may run. A call is therefore a process with two atomic steps, and
  a schedule says which call takes the next step. \<open>create_sequentially\<close> runs whole calls
  one after another, each for the same doctor, date and slot.
\<close>

datatype call_phase = Checking | Inserting | Returned "booking option"

record create_call =
  call_patient :: "string option"
  call_doctor :: "string option"
  call_date :: "string option"
  call_slot :: "string option"
  phase :: call_phase

definition step_call :: "database \<Rightarrow> create_call \<Rightarrow> database \<times> create_call" where
  "step_call db c =
     (case phase c of
        Checking \<Rightarrow>
          if slot_taken db (call_doctor c) (call_date c) (call_slot c)
          then (db, c\<lparr>phase := Returned None\<rparr>)
          else (db, c\<lparr>phase := Inserting\<rparr>)
      | Inserting \<Rightarrow>
          (case insert_booking db (call_patient c) (call_doctor c) (call_date c) (call_slot c) of
             (new_booking, db') \<Rightarrow> (db', c\<lparr>phase := Returned (Some new_booking)\<rparr>))
      | Returned r \<Rightarrow> (db, c))"

definition schedule_step :: "nat \<Rightarrow> database \<times> create_call list \<Rightarrow> database \<times> create_call list" where
  "schedule_step i s =
     (case s of
        (db, calls) \<Rightarrow>
          if i < length calls
          then (case step_call db (calls ! i) of (db', c') \<Rightarrow> (db', calls[i := c']))
          else (db, calls))"

definition run :: "nat list \<Rightarrow> database \<times> create_call list \<Rightarrow> database \<times> create_call list" where
  "run schedule s = fold schedule_step schedule s"

fun create_sequentially ::
    "database \<Rightarrow> string option list \<Rightarrow> string option \<Rightarrow> string option \<Rightarrow> string option
       \<Rightarrow> booking option list \<times> database" where
  "create_sequentially db [] n d s = ([], db)"
| "create_sequentially db (p # ps) n d s =
     (case create_booking db p n d s of
        (r, db') \<Rightarrow>
          (case create_sequentially db' ps n d s of
             (rs, db'') \<Rightarrow> (r # rs, db'')))"

section \<open>Notions used to state the claims\<close>

definition booked_slots_for :: "database \<Rightarrow> string option \<Rightarrow> string option \<Rightarrow> string option set" where
  \<comment> \<open>the time slots of the bookings stored for a doctor name and a date\<close>
  "booked_slots_for db name dt =
     time_slot ` {b \<in> set (bookings db). booking_doctor_name b = name \<and> date b = dt}"

definition slot_key :: "booking \<Rightarrow> string option \<times> string option \<times> string option" where
  "slot_key b = (booking_doctor_name b, date b, time_slot b)"

definition unique_slots :: "database \<Rightarrow> bool" where
  \<comment> \<open>at most one booking per doctor, date and time slot\<close>
  "unique_slots db = distinct (map slot_key (bookings db))"

definition closer_time :: "nat \<Rightarrow> nat \<Rightarrow> nat \<Rightarrow> bool" where
  \<comment> \<open>\<open>x\<close> ranks before \<open>y\<close>: nearer to \<open>p\<close>, or equally near and earlier\<close>
  "closer_time p x y =
     (time_distance p x < time_distance p y
      \<or> (time_distance p x = time_distance p y \<and> x < y))"

definition closer :: "nat \<Rightarrow> string \<Rightarrow> string \<Rightarrow> bool" where
  \<comment> \<open>the same ranking for slots given as strings\<close>
  "closer p x y =
     (case (strptime_hm x, strptime_hm y) of
        (Some tx, Some ty) \<Rightarrow> closer_time p tx ty
      | _ \<Rightarrow> False)"

definition smith :: doctor where
  "smith = \<lparr>doctor_id = 1, doctor_name = ''Dr. Smith'', department = ''Cardiology'',
             available_start = ''09:00'', available_end = ''10:00'', off_day = Some ''Friday''\<rparr>"

definition smith_db :: database where
  \<comment> \<open>the scenario of the specification: Dr. Smith, 09:00 to 10:00, with 09:20 booked\<close>
  "smith_db =
     \<lparr>doctors = [smith],
      bookings = [\<lparr>booking_id = 1, patient_name = Some ''Alice'',
                   booking_doctor_name = Some ''Dr. Smith'', date = Some ''2024-01-01'',
                   time_slot = Some ''09:20''\<rparr>]\<rparr>"

definition jones_db :: database where
  \<comment> \<open>a doctor with six free slots, 09:00 to 11:00\<close>
  "jones_db =
     \<lparr>doctors = [\<lparr>doctor_id = 1, doctor_name = ''Dr. Jones'', department = ''Neurology'',
                   available_start = ''09:00'', available_end = ''11:00'', off_day = None\<rparr>],
      bookings = []\<rparr>"

definition new_call :: "string \<Rightarrow> create_call" where
  "new_call patient =
     \<lparr>call_patient = Some patient, call_doctor = Some ''Dr. Smith'',
      call_date = Some ''2024-01-01'', call_slot = Some ''09:40'', phase = Checking\<rparr>"

section \<open>Properties of the time functions\<close>

lemma below_ten_cases:
  "k < (10::nat) \<Longrightarrow>
     k = 0 \<or> k = 1 \<or> k = 2 \<or> k = 3 \<or> k = 4 \<or> k = 5 \<or> k = 6 \<or> k = 7 \<or> k = 8 \<or> k = 9"
  by arith

lemma of_char_digit_char: "k < 10 \<Longrightarrow> (of_char (digit_char k) :: nat) = 48 + k"
  using below_ten_cases [of k] by (auto simp: digit_char_def)

lemma digit_val_digit_char: "k < 10 \<Longrightarrow> digit_val (digit_char k) = Some k"
  by (simp add: digit_val_def of_char_digit_char)

lemma digit_char_mod: "digit_char (n mod 10) = digit_char n"
  by (simp add: digit_char_def)

lemma digit_char_not_colon: "digit_char k \<noteq> CHR '':''"
proof
  assume "digit_char k = CHR '':''"
  then have "(of_char (digit_char (k mod 10)) :: nat) = 58"
    by (simp add: digit_char_mod)
  moreover have "(of_char (digit_char (k mod 10)) :: nat) = 48 + k mod 10"
    by (rule of_char_digit_char) simp
  ultimately show False by simp
qed

lemma digit_char_digit_val:
  assumes "digit_val c = Some k"
  shows "digit_char k = c \<and> k < 10"
proof -
  from assms have k: "k = of_char c - 48"
    and r: "(48::nat) \<le> of_char c" "of_char c \<le> (57::nat)"
    by (auto simp: digit_val_def split: if_splits)
  then have lt: "k < 10" by linarith
  have "(of_char (digit_char k) :: nat) = of_char c"
    using of_char_digit_char [OF lt] k r by simp
  then have "digit_char k = c" by (rule of_char_eqI)
  with lt show ?thesis by simp
qed

lemma strptime_strftime:
  assumes "t < 1440"
  shows "strptime_hm (strftime_hm t) = Some t"
proof -
  let ?h = "t div 60" and ?m = "t mod 60"
  have h: "?h < 24" using assms by linarith
  have m: "?m < 60" by simp
  have hm: "?h mod 24 = ?h" using h by simp
  have d1: "digit_val (digit_char (?h div 10)) = Some (?h div 10)"
    using h by (intro digit_val_digit_char) linarith
  have d2: "digit_val (digit_char ?h) = Some (?h mod 10)"
    using digit_val_digit_char [of "?h mod 10"] by (simp add: digit_char_mod)
  have d3: "digit_val (digit_char (?m div 10)) = Some (?m div 10)"
    by (intro digit_val_digit_char) linarith
  have d4: "digit_val (digit_char ?m) = Some (?m mod 10)"
    using digit_val_digit_char [of "?m mod 10"] by (simp add: digit_char_mod)
  have pH: "parse_hour (two_digits ?h) = Some ?h"
    using h by (simp add: parse_hour_def two_digits_def d1 d2)
  have m6: "?m div 10 < 6" by linarith
  have pM: "parse_minute (two_digits ?m) = Some ?m"
    using m6 by (simp add: parse_minute_def two_digits_def d3 d4)
  have tw: "takeWhile (\<lambda>c. c \<noteq> CHR '':'') (strftime_hm t) = two_digits ?h"
    by (simp add: strftime_hm_def two_digits_def hm digit_char_not_colon)
  have dw: "dropWhile (\<lambda>c. c \<noteq> CHR '':'') (strftime_hm t) = CHR '':'' # two_digits ?m"
    by (simp add: strftime_hm_def two_digits_def hm digit_char_not_colon)
  show ?thesis
    unfolding strptime_hm_def Let_def tw dw using pH pM by simp
qed

lemma well_formed_roundtrip:
  assumes "well_formed_hhmm s"
  shows "\<exists>t. t < 1440 \<and> strptime_hm s = Some t \<and> strftime_hm t = s"
proof -
  from assms obtain a b d e h1 h2 m1 m2 where
    s: "s = [a, b, CHR '':'', d, e]" and
    dv: "digit_val a = Some h1" "digit_val b = Some h2" "digit_val d = Some m1"
      "digit_val e = Some m2" and
    r: "10 * h1 + h2 < 24" "10 * m1 + m2 < 60"
    by (auto simp: well_formed_hhmm_def split: list.splits option.splits)
  from dv have c: "digit_char h1 = a" "digit_char h2 = b" "digit_char m1 = d"
    "digit_char m2 = e" and lt: "h1 < 10" "h2 < 10" "m1 < 10" "m2 < 10"
    using digit_char_digit_val by blast+
  define H where "H = 10 * h1 + h2"
  define M where "M = 10 * m1 + m2"
  have HM: "H < 24" "M < 60" using r by (simp_all add: H_def M_def)
  let ?t = "60 * H + M"
  have t: "?t < 1440" using HM by linarith
  have dh: "?t div 60 mod 24 = H" using HM by simp
  have dm: "?t mod 60 = M" using HM by simp
  have h1: "H div 10 = h1" "H mod 10 = h2" using lt by (simp_all add: H_def)
  have m1: "M div 10 = m1" "M mod 10 = m2" using lt by (simp_all add: M_def)
  have "two_digits H = [a, b]"
    unfolding two_digits_def h1 using c h1 by (metis digit_char_mod)
  moreover have "two_digits M = [d, e]"
    unfolding two_digits_def m1 using c m1 by (metis digit_char_mod)
  ultimately have "strftime_hm ?t = s"
    unfolding strftime_hm_def dh dm s by simp
  moreover have "strptime_hm (strftime_hm ?t) = Some ?t"
    using t by (rule strptime_strftime)
  ultimately show ?thesis using t by metis
qed

lemma slots_loop_step:
  "current < end_dt \<Longrightarrow>
     slots_loop current end_dt slots
       = slots_loop (current + 20) end_dt (slots @ [strftime_hm current])"
  by (subst slots_loop.simps) simp

lemma slots_loop_stop: "\<not> current < end_dt \<Longrightarrow> slots_loop current end_dt slots = slots"
  by (subst slots_loop.simps) simp

lemma grid_index_bound: "(i < (b - a + 19) div 20) = (a + 20 * i < (b::nat))"
proof -
  have "(i < (b - a + 19) div 20) = (Suc i \<le> (b - a + 19) div 20)"
    by (simp add: Suc_le_eq)
  also have "\<dots> = (Suc i * 20 \<le> b - a + 19)"
    by (simp add: less_eq_div_iff_mult_less_eq)
  also have "\<dots> = (a + 20 * i < b)"
    by (simp; linarith)
  finally show ?thesis .
qed

lemma grid_count_step:
  assumes "current < end_dt"
  shows "(end_dt - current + 19) div 20 = Suc ((end_dt - (current + 20) + 19) div (20::nat))"
proof (cases "end_dt - current < 20")
  case True
  with assms show ?thesis by simp
next
  case False
  then have "end_dt - current + 19 = (end_dt - (current + 20) + 19) + 20"
    by linarith
  then show ?thesis
    by (simp only: div_add_self2)
qed

lemma grid_times_step:
  assumes "a < b"
  shows "grid_times a b = a # grid_times (a + 20) b"
proof -
  define n where "n = (b - (a + 20) + 19) div 20"
  have e: "(b - a + 19) div 20 = Suc n"
    unfolding n_def using assms by (rule grid_count_step)
  have "grid_times a b = map (\<lambda>i. a + 20 * i) [0..<Suc n]"
    by (simp only: grid_times_def e)
  also have "\<dots> = a # map (\<lambda>i. a + 20 * Suc i) [0..<n]"
    by (simp only: map_upt_Suc) simp
  also have "map (\<lambda>i. a + 20 * Suc i) [0..<n] = grid_times (a + 20) b"
    by (simp add: grid_times_def n_def)
  finally show ?thesis .
qed

lemma slots_loop_grid:
  "slots_loop a b acc = acc @ map strftime_hm (grid_times a b)"
proof (induction a b acc rule: slots_loop.induct)
  case (1 current end_dt slots)
  show ?case
  proof (cases "current < end_dt")
    case True
    then show ?thesis
      using "1.IH" by (simp add: slots_loop_step grid_times_step)
  next
    case False
    then have "grid_times current end_dt = []"
      by (simp add: grid_times_def)
    with False show ?thesis by (simp add: slots_loop_stop)
  qed
qed

lemma grid_times_set: "set (grid_times a b) = {t. t < b \<and> (\<exists>i. t = a + 20 * i)}"
  by (auto simp: grid_times_def grid_index_bound)

lemma grid_times_sorted: "sorted_wrt (<) (grid_times a b)"
  by (simp add: grid_times_def sorted_wrt_map sorted_wrt_upt)

lemma grid_times_hd: "a < b \<Longrightarrow> hd (grid_times a b) = a"
  by (simp add: grid_times_step)

lemma grid_times_roundtrip:
  assumes "b \<le> 1440"
  shows "map strptime_hm (map strftime_hm (grid_times a b)) = map Some (grid_times a b)"
proof -
  have "\<And>t. t \<in> set (grid_times a b) \<Longrightarrow> strptime_hm (strftime_hm t) = Some t"
    using assms by (intro strptime_strftime) (auto simp: grid_times_set)
  then show ?thesis by simp
qed

section \<open>Properties of the store operations\<close>

lemma booked_slots_for_filter:
  "set (map time_slot (filter (\<lambda>b. booking_doctor_name b = name \<and> date b = dt) (bookings db)))
     = booked_slots_for db name dt"
  by (auto simp: booked_slots_for_def)

lemma slot_taken_iff:
  "slot_taken db n d s = (\<exists>b\<in>set (bookings db). slot_key b = (n, d, s))"
  by (auto simp: slot_taken_def slot_key_def find_None_iff)

lemma fold_max_upper: "x \<in> set xs \<Longrightarrow> x \<le> fold max xs (a::nat)"
proof (induction xs arbitrary: a)
  case Nil
  then show ?case by simp
next
  case (Cons y ys)
  have mono: "\<And>b. b \<le> fold max ys b"
  proof -
    fix b show "b \<le> fold max ys b"
      by (induction ys arbitrary: b) (auto intro: order_trans [OF max.cobounded2])
  qed
  show ?case
  proof (cases "x = y")
    case True
    then show ?thesis using mono [of "max y a"] by simp
  next
    case False
    then show ?thesis using Cons by simp
  qed
qed

lemma next_booking_id_fresh: "next_booking_id bs \<notin> booking_id ` set bs"
proof
  assume "next_booking_id bs \<in> booking_id ` set bs"
  then have "next_booking_id bs \<in> set (map booking_id bs)" by simp
  then have "next_booking_id bs \<le> fold max (map booking_id bs) 0"
    by (rule fold_max_upper)
  then show False by (simp add: next_booking_id_def)
qed

lemma day_name_nonempty: "strftime_A date_obj \<noteq> []"
proof -
  obtain y m d where "date_obj = (y, m, d)" by (cases date_obj) auto
  moreover have "\<And>k. k < 7 \<Longrightarrow> day_names ! k \<noteq> []"
  proof -
    fix k :: nat assume "k < 7"
    then have "k = 0 \<or> k = 1 \<or> k = 2 \<or> k = 3 \<or> k = 4 \<or> k = 5 \<or> k = 6" by arith
    then show "day_names ! k \<noteq> []" by (auto simp: day_names_def)
  qed
  ultimately show ?thesis by (simp add: strftime_A_def)
qed

lemma digit_val_lt: "digit_val c = Some k \<Longrightarrow> k < 10"
  using digit_char_digit_val by blast

lemma parse_hour_lt: "parse_hour hs = Some h \<Longrightarrow> h < 24"
  by (auto simp: parse_hour_def split: list.splits option.splits if_splits dest: digit_val_lt)

lemma parse_minute_lt: "parse_minute ms = Some m \<Longrightarrow> m < 60"
  by (auto simp: parse_minute_def split: list.splits option.splits if_splits dest!: digit_val_lt)

lemma strptime_hm_lt: "strptime_hm s = Some t \<Longrightarrow> t < 1440"
proof -
  assume "strptime_hm s = Some t"
  then obtain h m where "parse_hour (takeWhile (\<lambda>c. c \<noteq> CHR '':'') s) = Some h"
    "parse_minute (tl (dropWhile (\<lambda>c. c \<noteq> CHR '':'') s)) = Some m" "t = 60 * h + m"
    by (auto simp: strptime_hm_def Let_def split: list.splits option.splits)
  then show ?thesis
    using parse_hour_lt [of _ h] parse_minute_lt [of _ m] by fastforce
qed

lemma generate_time_slots_shape:
  assumes "generate_time_slots s e = Inr g"
  shows "\<exists>a b. b < 1440 \<and> g = map strftime_hm (grid_times a b)"
proof -
  from assms obtain a b where "strptime_hm s = Some a" "strptime_hm e = Some b"
    "g = slots_loop a b []"
    by (auto simp: generate_time_slots_def split: option.splits)
  then show ?thesis
    using strptime_hm_lt [of e b] by (auto simp: slots_loop_grid)
qed

lemma available_shape:
  assumes "get_doctor_available_slots db name dt = Inr av"
  shows "\<exists>ts. av = map strftime_hm ts \<and> sorted_wrt (<) ts \<and> (\<forall>t\<in>set ts. t < 1440)"
proof (cases "find (\<lambda>d. Some (doctor_name d) = name) (doctors db)")
  case None
  with assms have "av = []" by (simp add: get_doctor_available_slots_def)
  then show ?thesis by simp
next
  case (Some doc)
  with assms obtain g P where g: "generate_time_slots (available_start doc) (available_end doc) = Inr g"
    and av: "av = filter P g"
    by (auto simp: get_doctor_available_slots_def Let_def split: sum.splits)
  from generate_time_slots_shape [OF g] obtain a b where b: "b < 1440"
    and gg: "g = map strftime_hm (grid_times a b)" by blast
  let ?ts = "filter (P \<circ> strftime_hm) (grid_times a b)"
  have "av = map strftime_hm ?ts"
    by (simp add: av gg filter_map)
  moreover have "sorted_wrt (<) ?ts"
    by (intro sorted_wrt_filter grid_times_sorted)
  moreover have "\<forall>t\<in>set ?ts. t < 1440"
    using b by (auto simp: grid_times_set)
  ultimately show ?thesis by blast
qed

lemma those_map_Some: "those (map Some xs) = Some xs"
  by (induction xs) simp_all

lemma strptime_all:
  "\<forall>t\<in>set ts. t < 1440 \<Longrightarrow> those (map strptime_hm (map strftime_hm ts)) = Some ts"
  by (induction ts) (simp_all add: strptime_strftime)

lemma closer_time_distance: "closer_time p x y \<Longrightarrow> time_distance p x \<le> time_distance p y"
  by (auto simp: closer_time_def)

lemma insort_closer:
  assumes "sorted_wrt (closer_time p) ys" and "\<forall>y\<in>set ys. x < y"
  shows "sorted_wrt (closer_time p) (insort_key (time_distance p) x ys)"
  using assms
proof (induction ys)
  case Nil
  then show ?case by simp
next
  case (Cons y ys)
  show ?case
  proof (cases "time_distance p x \<le> time_distance p y")
    case True
    have "\<forall>z\<in>set (y # ys). closer_time p x z"
    proof
      fix z assume z: "z \<in> set (y # ys)"
      then have "time_distance p y \<le> time_distance p z"
        using Cons.prems(1) by (auto dest: closer_time_distance)
      with True have "time_distance p x \<le> time_distance p z" by simp
      moreover have "x < z" using Cons.prems(2) z by blast
      ultimately show "closer_time p x z" by (auto simp: closer_time_def)
    qed
    with True Cons.prems(1) show ?thesis by simp
  next
    case False
    then have "closer_time p y x" by (simp add: closer_time_def)
    moreover have "sorted_wrt (closer_time p) (insort_key (time_distance p) x ys)"
      using Cons by simp
    ultimately show ?thesis
      using False Cons.prems(1) by (auto simp: set_insort_key)
  qed
qed

lemma sort_key_closer:
  "sorted_wrt (<) xs \<Longrightarrow> sorted_wrt (closer_time p) (sort_key (time_distance p) xs)"
proof (induction xs)
  case Nil
  then show ?case by simp
next
  case (Cons x xs)
  then show ?case by (simp add: insort_closer)
qed

lemma closer_strftime:
  "tx < 1440 \<Longrightarrow> ty < 1440 \<Longrightarrow> closer p (strftime_hm tx) (strftime_hm ty) = closer_time p tx ty"
  by (simp add: closer_def strptime_strftime)


lemma sorted_wrt_closer_strftime:
  assumes "sorted_wrt (closer_time p) us" and "\<forall>t\<in>set us. t < 1440"
  shows "sorted_wrt (closer p) (map strftime_hm us)"
proof -
  have "sorted_wrt (\<lambda>x y. closer p (strftime_hm x) (strftime_hm y)) us"
    using assms by (auto intro!: sorted_wrt_mono_rel [OF _ assms(1)] simp: closer_strftime)
  then show ?thesis by (simp add: sorted_wrt_map)
qed

lemma suggest_sorted_result:
  assumes av: "get_doctor_available_slots db name dt = Inr available"
    and ne: "available \<noteq> []" and nin: "preferred \<notin> set available"
    and p: "strptime_hm preferred = Some p"
  shows "\<exists>ts. available = map strftime_hm ts \<and> (\<forall>t\<in>set ts. t < 1440)
           \<and> sorted_wrt (closer_time p) (sort_key (time_distance p) ts)
           \<and> suggest_alternative_slots db name dt preferred
               = Inr (map strftime_hm (take 3 (sort_key (time_distance p) ts)))"
proof -
  from available_shape [OF av] obtain ts where ts: "available = map strftime_hm ts"
    "sorted_wrt (<) ts" "\<forall>t\<in>set ts. t < 1440" by blast
  have "those (map strptime_hm available) = Some ts"
    unfolding ts(1) using ts(3) by (rule strptime_all)
  then have "suggest_alternative_slots db name dt preferred
      = Inr (map strftime_hm (take 3 (sort_key (time_distance p) ts)))"
    using av ne nin p by (simp add: suggest_alternative_slots_def)
  with ts sort_key_closer [OF ts(2), of p] show ?thesis by blast
qed

lemma step_call_twice:
  assumes "phase c = Checking"
  shows "step_call (fst (step_call db c)) (snd (step_call db c))
     = (snd (create_booking db (call_patient c) (call_doctor c) (call_date c) (call_slot c)),
        c\<lparr>phase := Returned (fst (create_booking db (call_patient c) (call_doctor c)
                                    (call_date c) (call_slot c)))\<rparr>)"
  using assms
  by (simp add: step_call_def create_booking_def split: prod.splits)

lemma slot_taken_after_create: "slot_taken (snd (create_booking db p n d s)) n d s"
  by (simp add: create_booking_def insert_booking_def Let_def slot_taken_iff slot_key_def)

lemma create_sequentially_taken:
  "slot_taken db n d s \<Longrightarrow> create_sequentially db ps n d s = (replicate (length ps) None, db)"
  by (induction ps) (simp_all add: create_booking_def)

lemma strptime_ymd_monday: "strptime_ymd ''2024-01-01'' = Some (2024, 1, 1)"
  by (simp add: strptime_ymd_def parse_year_def parse_month_def parse_day_def digit_val_def
      days_in_month_def DAYS_IN_MONTH_def is_leap_def)

lemma strptime_ymd_friday: "strptime_ymd ''2024-01-05'' = Some (2024, 1, 5)"
  by (simp add: strptime_ymd_def parse_year_def parse_month_def parse_day_def digit_val_def
      days_in_month_def DAYS_IN_MONTH_def is_leap_def)

lemma strftime_A_monday: "strftime_A (2024, 1, 1) = ''Monday''"
  by (simp add: strftime_A_def ymd2ord_def days_before_year_def days_before_month_def
      DAYS_IN_MONTH_def is_leap_def day_names_def)

lemma strftime_A_friday: "strftime_A (2024, 1, 5) = ''Friday''"
  by (simp add: strftime_A_def ymd2ord_def days_before_year_def days_before_month_def
      DAYS_IN_MONTH_def is_leap_def day_names_def)

lemma find_smith:
  "find (\<lambda>d. Some (doctor_name d) = Some ''Dr. Smith'') (doctors smith_db) = Some smith"
  by (simp add: smith_db_def smith_def)

lemma find_who:
  "find (\<lambda>d. Some (doctor_name d) = Some ''Dr. Who'') (doctors smith_db) = None"
  by (simp add: smith_db_def smith_def)

lemma smith_grid:
  "generate_time_slots (available_start smith) (available_end smith)
     = Inr [''09:00'', ''09:20'', ''09:40'']"
  by (simp add: smith_def generate_time_slots_def strptime_hm_def parse_hour_def
      parse_minute_def digit_val_def slots_loop.simps strftime_hm_def two_digits_def
      digit_char_def)

lemma jones_available:
  "get_doctor_available_slots jones_db (Some ''Dr. Jones'') (Some ''2024-01-01'')
     = Inr [''09:00'', ''09:20'', ''09:40'', ''10:00'', ''10:20'', ''10:40'']"
  by (simp add: get_doctor_available_slots_def jones_db_def generate_time_slots_def
      strptime_hm_def parse_hour_def parse_minute_def digit_val_def slots_loop.simps
      strftime_hm_def two_digits_def digit_char_def)

lemma jones_nobody:
  "get_doctor_available_slots jones_db (Some ''Dr. Who'') (Some ''2024-01-01'') = Inr []"
  by (simp add: get_doctor_available_slots_def jones_db_def)

lemma jones_suggest:
  "suggest_alternative_slots jones_db (Some ''Dr. Jones'') (Some ''2024-01-01'') ''09:50''
     = Inr [''09:40'', ''10:00'', ''09:20'']"
  by (simp add: suggest_alternative_slots_def jones_available strptime_hm_def parse_hour_def
      parse_minute_def digit_val_def time_distance_def strftime_hm_def two_digits_def
      digit_char_def)

section \<open>Claims\<close>

text \<open>
  C2. For well-formed HH:MM strings \<open>start_time\<close> and \<open>end_time\<close> denoting the times
  \<open>a < b\<close>, \<open>generate_time_slots\<close> returns the printed forms of a list of times \<open>ts\<close>
  that is strictly increasing, begins with the start (the first string is \<open>start_time\<close>
  itself), steps by exactly 20 minutes (\<open>ts ! i = a + 20 * i\<close>) and holds exactly the
  times \<open>a + 20 * i\<close> strictly below \<open>b\<close>, whether or not \<open>a + 20 * i + 20\<close> exceeds \<open>b\<close>;
  every returned string parses back to its time.
\<close>

theorem generate_time_slots_grid:
  assumes "well_formed_hhmm start_time" and "well_formed_hhmm end_time"
    and "strptime_hm start_time = Some a" and "strptime_hm end_time = Some b"
    and "a < b"
  shows "\<exists>ts. generate_time_slots start_time end_time = Inr (map strftime_hm ts)
           \<and> map strptime_hm (map strftime_hm ts) = map Some ts
           \<and> sorted_wrt (<) ts
           \<and> hd ts = a \<and> hd (map strftime_hm ts) = start_time
           \<and> ts = map (\<lambda>i. a + 20 * i) [0..<length ts]
           \<and> set ts = {t. t < b \<and> (\<exists>i. t = a + 20 * i)}"
proof -
  from assms(1,3) have sa: "strftime_hm a = start_time"
    using well_formed_roundtrip by fastforce
  from assms(2,4) have b: "b < 1440"
    using well_formed_roundtrip by fastforce
  let ?ts = "grid_times a b"
  have ne: "?ts \<noteq> []"
    using assms(5) by (simp add: grid_times_step)
  have "generate_time_slots start_time end_time = Inr (map strftime_hm ?ts)"
    using assms(3,4) by (simp add: generate_time_slots_def slots_loop_grid)
  moreover have "map strptime_hm (map strftime_hm ?ts) = map Some ?ts"
    using b by (intro grid_times_roundtrip) simp
  moreover have "hd (map strftime_hm ?ts) = start_time"
    using ne sa assms(5) by (simp add: hd_map grid_times_hd)
  moreover have "?ts = map (\<lambda>i. a + 20 * i) [0..<length ?ts]"
    by (simp add: grid_times_def)
  ultimately show ?thesis
    using grid_times_sorted grid_times_set grid_times_hd [OF assms(5)] by blast
qed

theorem generate_time_slots_grid_witness:
  "well_formed_hhmm ''09:00'' \<and> well_formed_hhmm ''10:00''
     \<and> strptime_hm ''09:00'' = Some 540 \<and> strptime_hm ''10:00'' = Some 600
     \<and> (540::nat) < 600
     \<and> (\<exists>ts. generate_time_slots ''09:00'' ''10:00'' = Inr (map strftime_hm ts)
           \<and> map strptime_hm (map strftime_hm ts) = map Some ts
           \<and> sorted_wrt (<) ts
           \<and> hd ts = 540 \<and> hd (map strftime_hm ts) = ''09:00''
           \<and> ts = map (\<lambda>i. 540 + 20 * i) [0..<length ts]
           \<and> set ts = {t. t < 600 \<and> (\<exists>i. t = 540 + 20 * i)})"
proof -
  have w1: "well_formed_hhmm ''09:00''" and w2: "well_formed_hhmm ''10:00''"
    by (simp_all add: well_formed_hhmm_def digit_val_def)
  have p1: "strptime_hm ''09:00'' = Some 540" and p2: "strptime_hm ''10:00'' = Some 600"
    by (simp_all add: strptime_hm_def parse_hour_def parse_minute_def digit_val_def)
  have lt: "(540::nat) < 600" by simp
  from generate_time_slots_grid [OF w1 w2 p1 p2 lt] w1 w2 p1 p2 lt
  show ?thesis by blast
qed

text \<open>
  C1. When no doctor has exactly the name \<open>D\<close>, \<open>get_doctor_available_slots\<close> returns the
  empty list. Otherwise, with \<open>grid\<close> the slot grid generated from the working hours of
  the first doctor named \<open>D\<close>, it returns the grid with exactly the slots booked for
  \<open>(D, T)\<close> removed, in the grid's order: the grid minus the result is the set of booked
  slots that lie in the grid.
\<close>

theorem get_doctor_available_slots_grid:
  "(find (\<lambda>d. Some (doctor_name d) = Some D) (doctors db) = None
      \<longrightarrow> get_doctor_available_slots db (Some D) (Some T) = Inr [])
   \<and> (\<forall>doc grid.
        find (\<lambda>d. Some (doctor_name d) = Some D) (doctors db) = Some doc
        \<and> generate_time_slots (available_start doc) (available_end doc) = Inr grid
        \<longrightarrow> (\<exists>r. get_doctor_available_slots db (Some D) (Some T) = Inr r
               \<and> r = filter (\<lambda>s. Some s \<notin> booked_slots_for db (Some D) (Some T)) grid
               \<and> subseq r grid
               \<and> set grid - set r = {s \<in> set grid. Some s \<in> booked_slots_for db (Some D) (Some T)}))"
proof (intro conjI allI impI)
  assume "find (\<lambda>d. Some (doctor_name d) = Some D) (doctors db) = None"
  then show "get_doctor_available_slots db (Some D) (Some T) = Inr []"
    by (simp add: get_doctor_available_slots_def)
next
  fix doc grid
  assume h: "find (\<lambda>d. Some (doctor_name d) = Some D) (doctors db) = Some doc
        \<and> generate_time_slots (available_start doc) (available_end doc) = Inr grid"
  let ?r = "filter (\<lambda>s. Some s \<notin> booked_slots_for db (Some D) (Some T)) grid"
  have "get_doctor_available_slots db (Some D) (Some T) = Inr ?r"
    using h booked_slots_for_filter [of "Some D" "Some T" db]
    by (simp add: get_doctor_available_slots_def)
  moreover have "set grid - set ?r = {s \<in> set grid. Some s \<in> booked_slots_for db (Some D) (Some T)}"
    by auto
  ultimately show "\<exists>r. get_doctor_available_slots db (Some D) (Some T) = Inr r
               \<and> r = ?r \<and> subseq r grid
               \<and> set grid - set r = {s \<in> set grid. Some s \<in> booked_slots_for db (Some D) (Some T)}"
    by simp
qed

theorem get_doctor_available_slots_grid_witness:
  "find (\<lambda>d. Some (doctor_name d) = Some ''Dr. Smith'') (doctors smith_db) = Some smith
   \<and> generate_time_slots (available_start smith) (available_end smith)
       = Inr [''09:00'', ''09:20'', ''09:40'']
   \<and> get_doctor_available_slots smith_db (Some ''Dr. Smith'') (Some ''2024-01-01'')
       = Inr [''09:00'', ''09:40'']
   \<and> find (\<lambda>d. Some (doctor_name d) = Some ''Dr. Who'') (doctors smith_db) = None
   \<and> get_doctor_available_slots smith_db (Some ''Dr. Who'') (Some ''2024-01-01'') = Inr []"
proof -
  note f = find_smith and g = smith_grid
  have b: "booked_slots_for smith_db (Some ''Dr. Smith'') (Some ''2024-01-01'') = {Some ''09:20''}"
    by (simp add: booked_slots_for_filter [symmetric] smith_db_def)
  note n = find_who
  note smith_case = get_doctor_available_slots_grid [of "''Dr. Smith''" smith_db "''2024-01-01''",
      THEN conjunct2, THEN spec, THEN spec, THEN mp, OF conjI, OF f g]
  then obtain r where r: "get_doctor_available_slots smith_db (Some ''Dr. Smith'')
        (Some ''2024-01-01'') = Inr r"
      "r = filter (\<lambda>s. Some s \<notin> booked_slots_for smith_db (Some ''Dr. Smith'')
                                     (Some ''2024-01-01''))
               [''09:00'', ''09:20'', ''09:40'']"
    by blast
  have "r = [''09:00'', ''09:40'']"
    unfolding r(2) b by simp
  with r(1) have r': "get_doctor_available_slots smith_db (Some ''Dr. Smith'')
        (Some ''2024-01-01'') = Inr [''09:00'', ''09:40'']"
    by simp
  note who_case = get_doctor_available_slots_grid [of "''Dr. Who''" smith_db "''2024-01-01''",
      THEN conjunct1, THEN mp, OF n]
  from f g r' n who_case show ?thesis by (intro conjI)
qed

text \<open>
  C3. \<open>create_booking\<close> returns \<open>None\<close> exactly when a booking with the same doctor
  name, date and time slot is stored, and then leaves the store as it was; otherwise
  it appends one booking with exactly the given fields (and a fresh id) and returns
  it. Either way a store with at most one booking per doctor, date and slot stays so.
\<close>

theorem create_booking_conflict:
  "(fst (create_booking db p n d s) = None
      \<longleftrightarrow> (\<exists>b\<in>set (bookings db). booking_doctor_name b = n \<and> date b = d \<and> time_slot b = s))
   \<and> (fst (create_booking db p n d s) = None \<longrightarrow> snd (create_booking db p n d s) = db)
   \<and> (fst (create_booking db p n d s) \<noteq> None \<longrightarrow>
        (\<exists>b. create_booking db p n d s = (Some b, db\<lparr>bookings := bookings db @ [b]\<rparr>)
           \<and> patient_name b = p \<and> booking_doctor_name b = n \<and> date b = d \<and> time_slot b = s
           \<and> booking_id b \<notin> booking_id ` set (bookings db)))
   \<and> (unique_slots db \<longrightarrow> unique_slots (snd (create_booking db p n d s)))"
proof -
  have taken: "slot_taken db n d s
      = (\<exists>b\<in>set (bookings db). booking_doctor_name b = n \<and> date b = d \<and> time_slot b = s)"
    by (simp add: slot_taken_iff slot_key_def)
  have c1: "fst (create_booking db p n d s) = None
      \<longleftrightarrow> (\<exists>b\<in>set (bookings db). booking_doctor_name b = n \<and> date b = d \<and> time_slot b = s)"
    unfolding taken [symmetric]
    by (simp add: create_booking_def insert_booking_def Let_def)
  have c2: "fst (create_booking db p n d s) = None \<longrightarrow> snd (create_booking db p n d s) = db"
    by (simp add: create_booking_def insert_booking_def Let_def)
  have c3: "fst (create_booking db p n d s) \<noteq> None \<longrightarrow>
        (\<exists>b. create_booking db p n d s = (Some b, db\<lparr>bookings := bookings db @ [b]\<rparr>)
           \<and> patient_name b = p \<and> booking_doctor_name b = n \<and> date b = d \<and> time_slot b = s
           \<and> booking_id b \<notin> booking_id ` set (bookings db))"
    using next_booking_id_fresh [of "bookings db"]
    by (simp add: create_booking_def insert_booking_def Let_def)
  have c4: "unique_slots db \<longrightarrow> unique_slots (snd (create_booking db p n d s))"
  proof (cases "slot_taken db n d s")
    case True
    then show ?thesis by (simp add: create_booking_def)
  next
    case False
    then have "(n, d, s) \<notin> set (map slot_key (bookings db))"
      by (auto simp: slot_taken_iff)
    then show ?thesis
      using False
      by (simp add: create_booking_def insert_booking_def Let_def unique_slots_def slot_key_def)
  qed
  from c1 c2 c3 c4 show ?thesis by (intro conjI)
qed

theorem create_booking_conflict_witness:
  "unique_slots smith_db
   \<and> create_booking smith_db (Some ''Bob'') (Some ''Dr. Smith'') (Some ''2024-01-01'')
        (Some ''09:20'') = (None, smith_db)
   \<and> fst (create_booking smith_db (Some ''Bob'') (Some ''Dr. Smith'') (Some ''2024-01-01'')
        (Some ''09:40'')) \<noteq> None
   \<and> unique_slots (snd (create_booking smith_db (Some ''Bob'') (Some ''Dr. Smith'')
        (Some ''2024-01-01'') (Some ''09:40'')))"
proof -
  have u: "unique_slots smith_db"
    by (simp add: unique_slots_def smith_db_def slot_key_def)
  have t: "\<exists>b\<in>set (bookings smith_db). booking_doctor_name b = Some ''Dr. Smith''
      \<and> date b = Some ''2024-01-01'' \<and> time_slot b = Some ''09:20''"
    by (simp add: smith_db_def)
  have f: "\<not> (\<exists>b\<in>set (bookings smith_db). booking_doctor_name b = Some ''Dr. Smith''
      \<and> date b = Some ''2024-01-01'' \<and> time_slot b = Some ''09:40'')"
    by (simp add: smith_db_def)
  note taken = create_booking_conflict [of smith_db "Some ''Bob''" "Some ''Dr. Smith''"
      "Some ''2024-01-01''" "Some ''09:20''"]
  from taken [THEN conjunct1] t
  have t1: "fst (create_booking smith_db (Some ''Bob'') (Some ''Dr. Smith'') (Some ''2024-01-01'')
        (Some ''09:20'')) = None"
    by (rule iffD2)
  from taken [THEN conjunct2, THEN conjunct1, THEN mp, OF t1]
  have t2: "snd (create_booking smith_db (Some ''Bob'') (Some ''Dr. Smith'') (Some ''2024-01-01'')
        (Some ''09:20'')) = smith_db" .
  from t1 t2
  have c: "create_booking smith_db (Some ''Bob'') (Some ''Dr. Smith'') (Some ''2024-01-01'')
        (Some ''09:20'') = (None, smith_db)"
    by (simp add: prod_eq_iff)
  note free = create_booking_conflict [of smith_db "Some ''Bob''" "Some ''Dr. Smith''"
      "Some ''2024-01-01''" "Some ''09:40''"]
  from free [THEN conjunct1] f
  have f1: "fst (create_booking smith_db (Some ''Bob'') (Some ''Dr. Smith'') (Some ''2024-01-01'')
        (Some ''09:40'')) \<noteq> None"
    by simp
  from free [THEN conjunct2, THEN conjunct2, THEN conjunct2, THEN mp, OF u]
  have f2: "unique_slots (snd (create_booking smith_db (Some ''Bob'') (Some ''Dr. Smith'')
        (Some ''2024-01-01'') (Some ''09:40'')))" .
  from u c f1 f2 show ?thesis by (intro conjI)
qed

text \<open>
  C6, as stated, fails: for a name that no doctor has, \<open>check_doctor_availability\<close>
  returns \<open>False\<close> (the guard \<open>if not doc: return False\<close>), not \<open>True\<close>.
\<close>

theorem check_doctor_availability_missing_doctor:
  "strptime_ymd ''2024-01-01'' = Some (2024, 1, 1)
   \<and> find (\<lambda>d. Some (doctor_name d) = Some ''Dr. Who'') (doctors smith_db) = None
   \<and> check_doctor_availability smith_db (Some ''Dr. Who'') ''2024-01-01'' = Inr False"
  by (simp add: strptime_ymd_monday find_who check_doctor_availability_def del: option.inject)

text \<open>
  C6, amended. For a date string that \<open>strptime\<close> accepts, \<open>check_doctor_availability\<close>
  returns \<open>False\<close> when no doctor has exactly that name, and for the first doctor
  with that name it returns \<open>False\<close> exactly when the day name of the date equals the
  doctor's off-day, \<open>True\<close> otherwise.
\<close>

theorem check_doctor_availability_off_day:
  assumes "strptime_ymd dt = Some date_obj"
  shows "check_doctor_availability db name dt
     = Inr (case find (\<lambda>d. Some (doctor_name d) = name) (doctors db) of
              None \<Rightarrow> False
            | Some doc \<Rightarrow> off_day doc \<noteq> Some (strftime_A date_obj))"
  using assms day_name_nonempty [of date_obj]
  by (auto simp: check_doctor_availability_def truthy_def split: option.splits)


theorem check_doctor_availability_off_day_witness:
  "strptime_ymd ''2024-01-05'' = Some (2024, 1, 5)
   \<and> strftime_A (2024, 1, 5) = ''Friday''
   \<and> check_doctor_availability smith_db (Some ''Dr. Smith'') ''2024-01-05'' = Inr False
   \<and> strptime_ymd ''2024-01-01'' = Some (2024, 1, 1)
   \<and> strftime_A (2024, 1, 1) = ''Monday''
   \<and> check_doctor_availability smith_db (Some ''Dr. Smith'') ''2024-01-01'' = Inr True"
proof -
  note p5 = strptime_ymd_friday and p1 = strptime_ymd_monday
  note a5 = strftime_A_friday and a1 = strftime_A_monday
  have o: "off_day smith = Some ''Friday''" by (simp add: smith_def)
  from check_doctor_availability_off_day [OF p5, of smith_db "Some ''Dr. Smith''"]
  have r5: "check_doctor_availability smith_db (Some ''Dr. Smith'') ''2024-01-05'' = Inr False"
    by (simp only: find_smith o a5 option.case) simp
  from check_doctor_availability_off_day [OF p1, of smith_db "Some ''Dr. Smith''"]
  have r1: "check_doctor_availability smith_db (Some ''Dr. Smith'') ''2024-01-01'' = Inr True"
    by (simp only: find_smith o a1 option.case) simp
  from p5 a5 r5 p1 a1 r1 show ?thesis by (intro conjI)
qed

text \<open>
  C5. Let \<open>available\<close> be the list \<open>get_doctor_available_slots\<close> returns. If it is empty,
  \<open>suggest_alternative_slots\<close> returns the empty list; if the preferred time is among
  the available slots, it returns exactly that one slot; otherwise, for a preferred
  time that parses as \<open>p\<close>, it returns three of the available slots (all of them when
  there are fewer), ranked by absolute distance to \<open>p\<close> with ties in ascending time
  order, and every returned slot ranks before every available slot left out. The
  result never has more than three elements.
\<close>

theorem suggest_alternative_slots_closest:
  assumes av: "get_doctor_available_slots db name dt = Inr available"
  shows "(available = [] \<longrightarrow> suggest_alternative_slots db name dt preferred = Inr [])
     \<and> (preferred \<in> set available
          \<longrightarrow> suggest_alternative_slots db name dt preferred = Inr [preferred])
     \<and> (available \<noteq> [] \<and> preferred \<notin> set available \<and> strptime_hm preferred = Some p \<longrightarrow>
          (\<exists>r. suggest_alternative_slots db name dt preferred = Inr r
             \<and> length r = min 3 (length available)
             \<and> set r \<subseteq> set available
             \<and> sorted_wrt (closer p) r
             \<and> (\<forall>x\<in>set r. \<forall>y\<in>set available - set r. closer p x y)))
     \<and> (\<forall>r. suggest_alternative_slots db name dt preferred = Inr r \<longrightarrow> length r \<le> 3)"
proof (intro conjI impI allI)
  assume "available = []"
  then show "suggest_alternative_slots db name dt preferred = Inr []"
    using av by (simp add: suggest_alternative_slots_def)
next
  assume "preferred \<in> set available"
  then show "suggest_alternative_slots db name dt preferred = Inr [preferred]"
    using av by (auto simp: suggest_alternative_slots_def)
next
  assume h: "available \<noteq> [] \<and> preferred \<notin> set available \<and> strptime_hm preferred = Some p"
  from suggest_sorted_result [OF av, of preferred p] h obtain ts where
    ts: "available = map strftime_hm ts" and lt: "\<forall>t\<in>set ts. t < 1440"
    and so: "sorted_wrt (closer_time p) (sort_key (time_distance p) ts)"
    and res: "suggest_alternative_slots db name dt preferred
               = Inr (map strftime_hm (take 3 (sort_key (time_distance p) ts)))"
    by blast
  let ?ss = "sort_key (time_distance p) ts"
  let ?r = "map strftime_hm (take 3 ?ss)"
  have set_ss: "set ?ss = set ts" by simp
  have len: "length ?r = min 3 (length available)"
    by (simp add: ts min.commute)
  have sub: "set ?r \<subseteq> set available"
    using set_take_subset [of 3 ?ss] by (auto simp: ts)
  have split: "?ss = take 3 ?ss @ drop 3 ?ss" by simp
  have so_take: "sorted_wrt (closer_time p) (take 3 ?ss)"
    using so split by (metis sorted_wrt_append)
  have lt_take: "\<forall>t\<in>set (take 3 ?ss). t < 1440"
    using lt set_take_subset [of 3 ?ss] by auto
  have sorted_r: "sorted_wrt (closer p) ?r"
    using so_take lt_take by (rule sorted_wrt_closer_strftime)
  have cross: "\<forall>x\<in>set (take 3 ?ss). \<forall>y\<in>set (drop 3 ?ss). closer_time p x y"
    using so split by (metis sorted_wrt_append)
  have closest: "\<forall>x\<in>set ?r. \<forall>y\<in>set available - set ?r. closer p x y"
  proof (intro ballI)
    fix x y assume x: "x \<in> set ?r" and y: "y \<in> set available - set ?r"
    from x obtain tx where tx: "tx \<in> set (take 3 ?ss)" "x = strftime_hm tx" by auto
    from y obtain ty where ty: "ty \<in> set ts" "y = strftime_hm ty" by (auto simp: ts)
    have "ty \<notin> set (take 3 ?ss)" using y ty(2) by auto
    moreover have "ty \<in> set (take 3 ?ss) \<union> set (drop 3 ?ss)"
      using ty(1) set_ss by (metis set_append split)
    ultimately have "ty \<in> set (drop 3 ?ss)" by blast
    with cross tx(1) have "closer_time p tx ty" by blast
    moreover have "tx < 1440" using lt_take tx(1) by blast
    moreover have "ty < 1440" using lt ty(1) by blast
    ultimately show "closer p x y" by (simp add: tx(2) ty(2) closer_strftime)
  qed
  from res len sub sorted_r closest
  show "\<exists>r. suggest_alternative_slots db name dt preferred = Inr r
             \<and> length r = min 3 (length available)
             \<and> set r \<subseteq> set available
             \<and> sorted_wrt (closer p) r
             \<and> (\<forall>x\<in>set r. \<forall>y\<in>set available - set r. closer p x y)"
    by blast
next
  fix r assume "suggest_alternative_slots db name dt preferred = Inr r"
  then show "length r \<le> 3"
    using av by (auto simp: suggest_alternative_slots_def split: if_splits option.splits)
qed

theorem suggest_alternative_slots_closest_witness:
  "get_doctor_available_slots jones_db (Some ''Dr. Jones'') (Some ''2024-01-01'')
     = Inr [''09:00'', ''09:20'', ''09:40'', ''10:00'', ''10:20'', ''10:40'']
   \<and> strptime_hm ''09:50'' = Some 590
   \<and> suggest_alternative_slots jones_db (Some ''Dr. Jones'') (Some ''2024-01-01'') ''09:50''
       = Inr [''09:40'', ''10:00'', ''09:20'']
   \<and> (\<exists>r. suggest_alternative_slots jones_db (Some ''Dr. Jones'') (Some ''2024-01-01'') ''09:50''
             = Inr r
         \<and> length r
              = min 3 (length [''09:00'', ''09:20'', ''09:40'', ''10:00'', ''10:20'', ''10:40''])
         \<and> set r \<subseteq> set [''09:00'', ''09:20'', ''09:40'', ''10:00'', ''10:20'', ''10:40'']
         \<and> sorted_wrt (closer 590) r
         \<and> (\<forall>x\<in>set r. \<forall>y\<in>set [''09:00'', ''09:20'', ''09:40'', ''10:00'', ''10:20'', ''10:40'']
                               - set r. closer 590 x y))
   \<and> suggest_alternative_slots jones_db (Some ''Dr. Jones'') (Some ''2024-01-01'') ''10:20''
       = Inr [''10:20'']
   \<and> get_doctor_available_slots jones_db (Some ''Dr. Who'') (Some ''2024-01-01'') = Inr []
   \<and> suggest_alternative_slots jones_db (Some ''Dr. Who'') (Some ''2024-01-01'') ''10:20''
       = Inr []"
proof -
  note av = jones_available
  have p: "strptime_hm ''09:50'' = Some 590"
    by (simp add: strptime_hm_def parse_hour_def parse_minute_def digit_val_def)
  note c = suggest_alternative_slots_closest [OF av]
  have "[''09:00'', ''09:20'', ''09:40'', ''10:00'', ''10:20'', ''10:40''] \<noteq> []
      \<and> ''09:50'' \<notin> set [''09:00'', ''09:20'', ''09:40'', ''10:00'', ''10:20'', ''10:40'']
      \<and> strptime_hm ''09:50'' = Some 590"
    using p by simp
  from c [of "''09:50''" 590, THEN conjunct2, THEN conjunct2, THEN conjunct1, THEN mp, OF this]
  have ex: "\<exists>r. suggest_alternative_slots jones_db (Some ''Dr. Jones'') (Some ''2024-01-01'')
              ''09:50'' = Inr r
         \<and> length r
              = min 3 (length [''09:00'', ''09:20'', ''09:40'', ''10:00'', ''10:20'', ''10:40''])
         \<and> set r \<subseteq> set [''09:00'', ''09:20'', ''09:40'', ''10:00'', ''10:20'', ''10:40'']
         \<and> sorted_wrt (closer 590) r
         \<and> (\<forall>x\<in>set r. \<forall>y\<in>set [''09:00'', ''09:20'', ''09:40'', ''10:00'', ''10:20'', ''10:40'']
                               - set r. closer 590 x y)" .
  have "''10:20'' \<in> set [''09:00'', ''09:20'', ''09:40'', ''10:00'', ''10:20'', ''10:40'']"
    by simp
  from c [of "''10:20''" 0, THEN conjunct2, THEN conjunct1, THEN mp, OF this]
  have pref: "suggest_alternative_slots jones_db (Some ''Dr. Jones'') (Some ''2024-01-01'')
      ''10:20'' = Inr [''10:20'']" .
  note e = suggest_alternative_slots_closest [OF jones_nobody, of "''10:20''" 0,
      THEN conjunct1, THEN mp, OF refl]
  from av p jones_suggest ex pref jones_nobody e show ?thesis by (intro conjI)
qed

text \<open>
  C4, as stated, fails: two calls for the same free slot whose existence checks both
  run before either insert both return a booking, and the store then holds two
  bookings for one doctor, date and slot.
\<close>

theorem overlapping_create_double_booking:
  "map phase (snd (run [0, 1, 0, 1] (smith_db, [new_call ''Bob'', new_call ''Carol''])))
     = [Returned (Some \<lparr>booking_id = 2, patient_name = Some ''Bob'',
           booking_doctor_name = Some ''Dr. Smith'', date = Some ''2024-01-01'',
           time_slot = Some ''09:40''\<rparr>),
        Returned (Some \<lparr>booking_id = 3, patient_name = Some ''Carol'',
           booking_doctor_name = Some ''Dr. Smith'', date = Some ''2024-01-01'',
           time_slot = Some ''09:40''\<rparr>)]
   \<and> \<not> unique_slots (fst (run [0, 1, 0, 1] (smith_db, [new_call ''Bob'', new_call ''Carol''])))"
  by (simp add: run_def schedule_step_def step_call_def new_call_def smith_db_def slot_taken_def
      insert_booking_def next_booking_id_def unique_slots_def slot_key_def Let_def)

text \<open>
  C4, amended. When N calls of \<open>create_booking\<close> for the same doctor, date and slot run
  one after another, and the slot is free beforehand, the first call creates the
  booking and the other N - 1 return \<open>None\<close>; when the slot is taken beforehand, all N
  return \<open>None\<close> and the store is unchanged.
\<close>

theorem sequential_create_one_winner:
  "(\<not> slot_taken db n d s \<longrightarrow>
      (\<exists>b. fst (create_sequentially db (p # ps) n d s) = Some b # replicate (length ps) None
          \<and> slot_key b = (n, d, s) \<and> patient_name b = p
          \<and> bookings (snd (create_sequentially db (p # ps) n d s)) = bookings db @ [b]))
   \<and> (slot_taken db n d s \<longrightarrow>
        create_sequentially db (p # ps) n d s = (replicate (Suc (length ps)) None, db))"
proof (intro conjI impI)
  assume free: "\<not> slot_taken db n d s"
  obtain b db' where c: "create_booking db p n d s = (Some b, db')"
    and b: "b = fst (insert_booking db p n d s)" and db': "db' = snd (insert_booking db p n d s)"
    using free by (simp add: create_booking_def split: prod.splits)
  have "slot_taken db' n d s"
    using slot_taken_after_create [of db p n d s] c by simp
  then have rest: "create_sequentially db' ps n d s = (replicate (length ps) None, db')"
    by (rule create_sequentially_taken)
  have cs: "create_sequentially db (p # ps) n d s = (Some b # replicate (length ps) None, db')"
    by (simp add: c rest)
  have "bookings db' = bookings db @ [b]"
    by (simp add: db' b insert_booking_def Let_def)
  then have "bookings (snd (create_sequentially db (p # ps) n d s)) = bookings db @ [b]"
    by (simp only: cs snd_conv)
  moreover have "fst (create_sequentially db (p # ps) n d s)
      = Some b # replicate (length ps) None"
    by (simp only: cs fst_conv)
  moreover have "slot_key b = (n, d, s) \<and> patient_name b = p"
    by (simp add: b insert_booking_def Let_def slot_key_def)
  ultimately show "\<exists>b. fst (create_sequentially db (p # ps) n d s)
            = Some b # replicate (length ps) None
          \<and> slot_key b = (n, d, s) \<and> patient_name b = p
          \<and> bookings (snd (create_sequentially db (p # ps) n d s)) = bookings db @ [b]"
    by blast
next
  assume "slot_taken db n d s"
  then show "create_sequentially db (p # ps) n d s = (replicate (Suc (length ps)) None, db)"
    using create_sequentially_taken [of db n d s "p # ps"] by simp
qed

theorem sequential_create_one_winner_witness:
  "\<not> slot_taken smith_db (Some ''Dr. Smith'') (Some ''2024-01-01'') (Some ''09:40'')
   \<and> (\<exists>b. fst (create_sequentially smith_db [Some ''Bob'', Some ''Carol'', Some ''Dan'']
                  (Some ''Dr. Smith'') (Some ''2024-01-01'') (Some ''09:40''))
             = Some b # replicate (length [Some ''Carol'', Some ''Dan'']) None
          \<and> slot_key b = (Some ''Dr. Smith'', Some ''2024-01-01'', Some ''09:40'')
          \<and> patient_name b = Some ''Bob''
          \<and> bookings (snd (create_sequentially smith_db [Some ''Bob'', Some ''Carol'', Some ''Dan'']
                  (Some ''Dr. Smith'') (Some ''2024-01-01'') (Some ''09:40'')))
              = bookings smith_db @ [b])
   \<and> slot_taken smith_db (Some ''Dr. Smith'') (Some ''2024-01-01'') (Some ''09:20'')
   \<and> create_sequentially smith_db [Some ''Bob'', Some ''Carol'', Some ''Dan'']
        (Some ''Dr. Smith'') (Some ''2024-01-01'') (Some ''09:20'')
       = (replicate (Suc (length [Some ''Carol'', Some ''Dan''])) None, smith_db)"
proof -
  have free: "\<not> slot_taken smith_db (Some ''Dr. Smith'') (Some ''2024-01-01'') (Some ''09:40'')"
    by (simp add: slot_taken_def smith_db_def)
  have taken: "slot_taken smith_db (Some ''Dr. Smith'') (Some ''2024-01-01'') (Some ''09:20'')"
    by (simp add: slot_taken_def smith_db_def)
  note one = sequential_create_one_winner [of smith_db "Some ''Dr. Smith''" "Some ''2024-01-01''"
      "Some ''09:40''" "Some ''Bob''" "[Some ''Carol'', Some ''Dan'']",
      THEN conjunct1, THEN mp, OF free]
  note none = sequential_create_one_winner [of smith_db "Some ''Dr. Smith''" "Some ''2024-01-01''"
      "Some ''09:20''" "Some ''Bob''" "[Some ''Carol'', Some ''Dan'']",
      THEN conjunct2, THEN mp, OF taken]
  from free one taken none show ?thesis by (intro conjI)
qed

end
